theory Spec2Isabelle
  imports Main "HOL-Library.Word" "HOL-Library.Signed_Division" "HOL-Library.Multiset"
begin

section \<open>The std::string operations used by the cookie parser\<close>

text \<open>
  A \<^verbatim>\<open>std::string\<close> is a \<^typ>\<open>string\<close> (a list of bytes). Positions and counts are
  \<^verbatim>\<open>size_t\<close> values, modelled as natural numbers below \<open>2 ^ 64\<close>; the one operation on
  them that can wrap, subtraction, is written out modulo \<open>2 ^ 64\<close>. The two ways a string
  access can go wrong are values of \<open>fault\<close>: \<^verbatim>\<open>substr\<close> throws \<^verbatim>\<open>std::out_of_range\<close>
  when its position exceeds the size, and \<^verbatim>\<open>operator[]\<close> beyond the size is undefined. The
  third fault belongs to the serialisation of cookies further down.
\<close>

datatype fault = OutOfRange | OutOfBounds | UseAfterFree

definition npos :: nat where
  "npos = 2 ^ 64 - 1"

definition size_sub :: "nat \<Rightarrow> nat \<Rightarrow> nat" where
  "size_sub a b = (a + 2 ^ 64 - b) mod 2 ^ 64"

definition dquote :: char where
  "dquote = CHR 0x22"

text \<open>
  \<^verbatim>\<open>s[i]\<close>: since C++11 the index \<open>i = s.size()\<close> is allowed and yields a reference to the
  null character; any larger index is out of bounds.
\<close>

definition char_at :: "string \<Rightarrow> nat \<Rightarrow> fault + char" where
  "char_at s i =
     (if i < length s then Inr (s ! i)
      else if i = length s then Inr (CHR 0x00)
      else Inl OutOfBounds)"

text \<open>\<^verbatim>\<open>s.substr(pos, n)\<close>: the characters \<open>[pos, pos + min n (size - pos))\<close>.\<close>

definition substr :: "string \<Rightarrow> nat \<Rightarrow> nat \<Rightarrow> fault + string" where
  "substr s pos n = (if length s < pos then Inl OutOfRange else Inr (take n (drop pos s)))"

text \<open>\<^verbatim>\<open>s.find(c, pos)\<close>: the first index \<open>\<ge> pos\<close> holding \<open>c\<close>, or \<^verbatim>\<open>npos\<close>.\<close>

function find_char :: "string \<Rightarrow> char \<Rightarrow> nat \<Rightarrow> nat" where
  "find_char s c pos =
     (if pos < length s
      then (if s ! pos = c then pos else find_char s c (pos + 1))
      else npos)"
  by pat_completeness auto
termination
  by (relation "measure (\<lambda>(s, c, pos). length s - pos)") auto

declare find_char.simps [simp del]

text \<open>
  \<^verbatim>\<open>boost::trim\<close> erases the trailing, then the leading characters classified as space by
  \<^verbatim>\<open>std::isspace\<close>; in the "C" locale these are the space and the five controls
  \<open>\t \n \v \f \r\<close>.
\<close>

definition is_space :: "char \<Rightarrow> bool" where
  "is_space c = (c \<in> {CHR '' '', CHR 0x09, CHR 0x0A, CHR 0x0B, CHR 0x0C, CHR 0x0D})"

definition trim :: "string \<Rightarrow> string" where
  "trim s = dropWhile is_space (rev (dropWhile is_space (rev s)))"

section \<open>The request cookie-header parser\<close>

type_synonym jar_map = "string \<rightharpoonup> string"

text \<open>
  \<^verbatim>\<open>ctx.jar.emplace(name, value)\<close> on a \<^verbatim>\<open>std::unordered_map\<close>: inserts only when the key
  is absent.
\<close>

definition emplace :: "jar_map \<Rightarrow> string \<Rightarrow> string \<Rightarrow> jar_map" where
  "emplace jar name val = (case jar name of None \<Rightarrow> jar(name \<mapsto> val) | Some _ \<Rightarrow> jar)"

text \<open>\<^verbatim>\<open>while (pos < cookies.size() && cookies[pos] == ' ') pos++;\<close>\<close>

function skip_spaces :: "string \<Rightarrow> nat \<Rightarrow> nat" where
  "skip_spaces cookies pos =
     (if pos < length cookies \<and> cookies ! pos = CHR '' ''
      then skip_spaces cookies (pos + 1)
      else pos)"
  by pat_completeness auto
termination
  by (relation "measure (\<lambda>(cookies, pos). length cookies - pos)") auto

declare skip_spaces.simps [simp del]

text \<open>
  The quote check and strip of lines 216-219:
  \<^verbatim>\<open>if (value[0] == '"' && value[value.size() - 1] == '"') value = value.substr(1, value.size() - 2);\<close>
  The second read happens only when the first comparison holds (short-circuit \<^verbatim>\<open>&&\<close>).
\<close>

definition strip_quotes :: "string \<Rightarrow> fault + string" where
  "strip_quotes val =
     (case char_at val 0 of
        Inl e \<Rightarrow> Inl e
      | Inr first \<Rightarrow>
          if first = dquote then
            (case char_at val (size_sub (length val) 1) of
               Inl e \<Rightarrow> Inl e
             | Inr lst \<Rightarrow>
                 if lst = dquote then substr val 1 (size_sub (length val) 2)
                 else Inr val)
          else Inr val)"

text \<open>
  One pass through the body of the scanning loop (lines 201-228), entered with
  \<open>pos < cookies.size()\<close>: it either leaves the loop with the jar (\<open>Exit\<close>, one of the three
  \<^verbatim>\<open>break\<close>s) or reaches the end of the body with a new position and jar (\<open>Continue\<close>).
\<close>

datatype step = Exit jar_map | Continue nat jar_map

definition parse_step :: "string \<Rightarrow> nat \<Rightarrow> jar_map \<Rightarrow> fault + step" where
  "parse_step cookies pos jar =
     (let pos_equal = find_char cookies (CHR ''='') pos in
      if pos_equal = npos then Inr (Exit jar)
      else
        (case substr cookies pos (size_sub pos_equal pos) of
           Inl e \<Rightarrow> Inl e
         | Inr name0 \<Rightarrow>
             (let name = trim name0;
                  pos1 = skip_spaces cookies (pos_equal + 1) in
              if pos1 = length cookies then Inr (Exit jar)
              else
                (let pos_semicolon = find_char cookies (CHR '';'') pos1 in
                 case substr cookies pos1 (size_sub pos_semicolon pos1) of
                   Inl e \<Rightarrow> Inl e
                 | Inr value0 \<Rightarrow>
                     (case strip_quotes (trim value0) of
                        Inl e \<Rightarrow> Inl e
                      | Inr val \<Rightarrow>
                          (let jar' = emplace jar name val in
                           if pos_semicolon = npos then Inr (Exit jar')
                           else Inr (Continue (skip_spaces cookies (pos_semicolon + 1)) jar')))))))"

lemma find_char_bounds:
  "find_char s c pos = npos \<or> (pos \<le> find_char s c pos \<and> find_char s c pos < length s)"
proof (induction s c pos rule: find_char.induct)
  case (1 s c pos)
  show ?case
  proof (cases "pos < length s")
    case False
    then show ?thesis by (simp add: find_char.simps [of s c pos])
  next
    case True
    show ?thesis
    proof (cases "s ! pos = c")
      case True
      with \<open>pos < length s\<close> show ?thesis by (simp add: find_char.simps [of s c pos])
    next
      case False
      with True 1 have "find_char s c (pos + 1) = npos \<or>
          (pos + 1 \<le> find_char s c (pos + 1) \<and> find_char s c (pos + 1) < length s)"
        by simp
      moreover from True False have "find_char s c pos = find_char s c (pos + 1)"
        by (simp add: find_char.simps [of s c pos])
      ultimately show ?thesis by auto
    qed
  qed
qed

lemma skip_spaces_ge: "pos \<le> skip_spaces cookies pos"
proof (induction cookies pos rule: skip_spaces.induct)
  case (1 cookies pos)
  show ?case
  proof (cases "pos < length cookies \<and> cookies ! pos = CHR '' ''")
    case True
    with 1 have "pos + 1 \<le> skip_spaces cookies (pos + 1)" by simp
    moreover from True have "skip_spaces cookies pos = skip_spaces cookies (pos + 1)"
      by (simp add: skip_spaces.simps [of cookies pos])
    ultimately show ?thesis by simp
  next
    case False
    then show ?thesis by (auto simp: skip_spaces.simps [of cookies pos])
  qed
qed

lemma parse_step_Continue:
  assumes "parse_step cookies pos jar = Inr (Continue pos' jar')"
  shows "find_char cookies (CHR ''='') pos \<noteq> npos
    \<and> find_char cookies (CHR '';'')
          (skip_spaces cookies (find_char cookies (CHR ''='') pos + 1)) \<noteq> npos
    \<and> pos' = skip_spaces cookies
          (find_char cookies (CHR '';'')
             (skip_spaces cookies (find_char cookies (CHR ''='') pos + 1)) + 1)"
  using assms unfolding parse_step_def Let_def
  by (simp split: if_splits sum.splits)

lemma parse_step_advances:
  assumes "parse_step cookies pos jar = Inr (Continue pos' jar')"
  shows "pos < pos'"
proof -
  let ?pe = "find_char cookies (CHR ''='') pos"
  let ?p1 = "skip_spaces cookies (?pe + 1)"
  let ?ps = "find_char cookies (CHR '';'') ?p1"
  from parse_step_Continue [OF assms]
  have pe: "?pe \<noteq> npos" and ps: "?ps \<noteq> npos"
    and p': "pos' = skip_spaces cookies (?ps + 1)"
    by blast+
  from pe find_char_bounds [of cookies "CHR ''=''" pos] have "pos \<le> ?pe" by blast
  moreover have "?pe + 1 \<le> ?p1" by (rule skip_spaces_ge)
  moreover from ps find_char_bounds [of cookies "CHR '';''" ?p1] have "?p1 \<le> ?ps" by blast
  moreover have "?ps + 1 \<le> skip_spaces cookies (?ps + 1)" by (rule skip_spaces_ge)
  ultimately show ?thesis using p' by linarith
qed

text \<open>
  The loop \<^verbatim>\<open>while (pos < cookies.size()) { ... }\<close> of lines 199-229, from a position and
  a jar.
\<close>

function parse_loop :: "string \<Rightarrow> nat \<Rightarrow> jar_map \<Rightarrow> fault + jar_map" where
  "parse_loop cookies pos jar =
     (if pos < length cookies then
        (case parse_step cookies pos jar of
           Inl e \<Rightarrow> Inl e
         | Inr (Exit jar') \<Rightarrow> Inr jar'
         | Inr (Continue pos' jar') \<Rightarrow> parse_loop cookies pos' jar')
      else Inr jar)"
  by pat_completeness auto
termination
proof (relation "measure (\<lambda>(cookies, pos, jar). length cookies - pos)")
  show "wf (measure (\<lambda>(cookies, pos, jar). length cookies - pos))" by simp
next
  fix cookies :: string and pos :: nat and jar :: jar_map and x2 x22 x23
  assume "pos < length cookies" and "parse_step cookies pos jar = Inr x2"
    and "x2 = Continue x22 x23"
  then have "pos < x22" using parse_step_advances by blast
  with \<open>pos < length cookies\<close>
  show "((cookies, x22, x23), (cookies, pos, jar))
          \<in> measure (\<lambda>(cookies, pos, jar). length cookies - pos)"
    by simp
qed

declare parse_loop.simps [simp del]

text \<open>Parsing a header value into an empty jar.\<close>

definition parse_cookies :: "string \<Rightarrow> fault + jar_map" where
  "parse_cookies cookies = parse_loop cookies 0 Map.empty"

text \<open>
  The same loop with a bound on the number of times its condition is tested: \<open>None\<close> when
  the bound is used up before the loop has been left.
\<close>

fun parse_iter :: "nat \<Rightarrow> string \<Rightarrow> nat \<Rightarrow> jar_map \<Rightarrow> (fault + jar_map) option" where
  "parse_iter 0 cookies pos jar = None"
| "parse_iter (Suc n) cookies pos jar =
     (if pos < length cookies then
        (case parse_step cookies pos jar of
           Inl e \<Rightarrow> Some (Inl e)
         | Inr (Exit jar') \<Rightarrow> Some (Inr jar')
         | Inr (Continue pos' jar') \<Rightarrow> parse_iter n cookies pos' jar')
      else Some (Inr jar))"

section \<open>The Cookie value object\<close>

text \<open>
  \<^verbatim>\<open>long long\<close> is a 64-bit word read as a signed number. \<open>show_ll\<close> is what
  \<^verbatim>\<open>operator<<\<close> prints for it on a stream whose locale is the classic one: decimal
  digits, with a leading minus sign.
\<close>

type_synonym long_long = "64 word"

definition digit_char :: "nat \<Rightarrow> char" where
  "digit_char d = ''0123456789'' ! d"

function dec_digits :: "nat \<Rightarrow> string" where
  "dec_digits n =
     (if n < 10 then [digit_char n] else dec_digits (n div 10) @ [digit_char (n mod 10)])"
  by pat_completeness auto
termination
  by (relation "measure (\<lambda>n. n)") auto

declare dec_digits.simps [simp del]

definition show_ll :: "long_long \<Rightarrow> string" where
  "show_ll a =
     (if sint a < 0 then CHR ''-'' # dec_digits (nat (- sint a)) else dec_digits (nat (sint a)))"

text \<open>
  \<^verbatim>\<open>boost::posix_time::time_duration\<close> holds a signed tick count; at the default
  microsecond resolution there are \<open>10^6\<close> ticks per second. Its accessor \<^verbatim>\<open>seconds()\<close>
  returns the normalised seconds component \<^verbatim>\<open>(ticks() / ticks_per_second()) % 60\<close>,
  and \<^verbatim>\<open>total_seconds()\<close> returns \<^verbatim>\<open>ticks() / ticks_per_second()\<close>; both with the
  truncating division and remainder of C++. \<^verbatim>\<open>boost::posix_time::seconds(n)\<close> constructs
  the duration of \<open>n\<close> seconds.
\<close>

record time_duration =
  ticks :: int

definition ticks_per_second :: int where
  "ticks_per_second = 1000000"

definition seconds :: "time_duration \<Rightarrow> int" where
  "seconds dt = (ticks dt sdiv ticks_per_second) smod 60"

definition total_seconds :: "time_duration \<Rightarrow> int" where
  "total_seconds dt = ticks dt sdiv ticks_per_second"

definition posix_seconds :: "int \<Rightarrow> time_duration" where
  "posix_seconds n = \<lparr>ticks = n * ticks_per_second\<rparr>"

datatype SameSitePolicy = Strict | Lax | None_policy

text \<open>
  The fields of \<^verbatim>\<open>Cookie\<close> with their default member initialisers; the source's names end
  in an underscore, written \<open>_m\<close> here. The type \<open>'t\<close> stands for
  \<^verbatim>\<open>boost::posix_time::ptime\<close>.
\<close>

record 't Cookie =
  key_m :: string
  value_m :: string
  max_age_m :: "long_long option"
  domain_m :: string
  path_m :: string
  secure_m :: bool
  httponly_m :: bool
  expires_at_m :: "'t option"
  same_site_m :: "SameSitePolicy option"

text \<open>\<^verbatim>\<open>Cookie(key, value)\<close>: the defaulted cookie with key and value assigned.\<close>

definition Cookie_ctor :: "string \<Rightarrow> string \<Rightarrow> 't Cookie" where
  "Cookie_ctor k v =
     \<lparr>key_m = k, value_m = v, max_age_m = None, domain_m = [], path_m = [],
      secure_m = False, httponly_m = False, expires_at_m = None, same_site_m = None\<rparr>"

definition DIVIDER :: string where
  "DIVIDER = ''; ''"

definition show_policy :: "SameSitePolicy \<Rightarrow> string" where
  "show_policy p = (case p of Strict \<Rightarrow> ''Strict'' | Lax \<Rightarrow> ''Lax'' | None_policy \<Rightarrow> ''None'')"

text \<open>
  \<^verbatim>\<open>format()\<close>, lines 54-91, depends on two things outside the cookie.

  The static \<^verbatim>\<open>HTTP_FACET\<close> points to a \<^verbatim>\<open>time_facet\<close> made with \<^verbatim>\<open>new\<close> and the default
  reference count \<open>refs = 0\<close>: the locale it is installed in (line 66) owns it, and deletes
  it when the last copy of that locale is destroyed, which is when the stream \<^verbatim>\<open>ss\<close> goes
  at the end of the call. The pointer stays, so the next call that reaches line 66 hands
  a deleted facet to a locale. The state of the facet is threaded through \<open>format\<close>, and
  that use is the fault \<open>UseAfterFree\<close>.

  The stream prints numbers through its locale. It is constructed with the global locale,
  whose rendering of a \<^verbatim>\<open>long long\<close> is the parameter \<open>global_num\<close>; the \<^verbatim>\<open>imbue\<close> of the
  Expires branch replaces it by the classic locale with the time facet, under which
  numbers are plain decimal (\<open>show_ll\<close>) and a \<^verbatim>\<open>ptime\<close> prints as \<open>http_date\<close> gives it
  (Boost's rendering of \<^verbatim>\<open>"%a, %d %b %Y %H:%M:%S GMT"\<close>).
\<close>

datatype facet = Facet_fresh | Facet_deleted

definition format ::
  "('t \<Rightarrow> string) \<Rightarrow> (long_long \<Rightarrow> string) \<Rightarrow> facet \<Rightarrow> 't Cookie
     \<Rightarrow> fault + (string \<times> facet)" where
  "format http_date global_num facet c =
     (let ss = key_m c @ ''='';
          ss = ss @ (if value_m c = [] then [dquote, dquote] else value_m c)
      in
      case (case expires_at_m c of
              None \<Rightarrow> Inr (ss, global_num, facet)
            | Some t \<Rightarrow>
                (case facet of
                   Facet_deleted \<Rightarrow> Inl UseAfterFree
                 | Facet_fresh \<Rightarrow>
                     Inr (ss @ DIVIDER @ ''Expires='' @ http_date t, show_ll, Facet_deleted))) of
        Inl e \<Rightarrow> Inl e
      | Inr (ss, num, facet') \<Rightarrow>
          (let ss = (case max_age_m c of
                       Some a \<Rightarrow> ss @ DIVIDER @ ''Max-Age='' @ num a
                     | None \<Rightarrow> ss);
               ss = (if domain_m c \<noteq> [] then ss @ DIVIDER @ ''Domain='' @ domain_m c else ss);
               ss = (if path_m c \<noteq> [] then ss @ DIVIDER @ ''Path='' @ path_m c else ss);
               ss = (if secure_m c then ss @ DIVIDER @ ''Secure'' else ss);
               ss = (if httponly_m c then ss @ DIVIDER @ ''HttpOnly'' else ss);
               ss = (case same_site_m c of
                       Some p \<Rightarrow> ss @ DIVIDER @ ''SameSite='' @ show_policy p
                     | None \<Rightarrow> ss)
           in Inr (ss, facet')))"

text \<open>The attribute setters, lines 94-146.\<close>

definition expires :: "'t Cookie \<Rightarrow> 't \<Rightarrow> 't Cookie" where
  "expires c time = c\<lparr>expires_at_m := Some time\<rparr>"

definition max_age :: "'t Cookie \<Rightarrow> long_long \<Rightarrow> 't Cookie" where
  "max_age c age = c\<lparr>max_age_m := Some age\<rparr>"

definition max_age_dt :: "'t Cookie \<Rightarrow> time_duration \<Rightarrow> 't Cookie" where
  "max_age_dt c dt = c\<lparr>max_age_m := Some (word_of_int (seconds dt))\<rparr>"

definition domain :: "'t Cookie \<Rightarrow> string \<Rightarrow> 't Cookie" where
  "domain c name = c\<lparr>domain_m := name\<rparr>"

definition path :: "'t Cookie \<Rightarrow> string \<Rightarrow> 't Cookie" where
  "path c p = c\<lparr>path_m := p\<rparr>"

definition secure :: "'t Cookie \<Rightarrow> 't Cookie" where
  "secure c = c\<lparr>secure_m := True\<rparr>"

definition httponly :: "'t Cookie \<Rightarrow> 't Cookie" where
  "httponly c = c\<lparr>httponly_m := True\<rparr>"

definition same_site :: "'t Cookie \<Rightarrow> SameSitePolicy \<Rightarrow> 't Cookie" where
  "same_site c ssp = c\<lparr>same_site_m := Some ssp\<rparr>"

text \<open>
  A call of one of the setters, the attribute it writes, and a chain of calls
  \<^verbatim>\<open>c.s1(..).s2(..)...\<close> applied from left to right.
\<close>

datatype 't setter_call =
    Call_expires 't
  | Call_max_age long_long
  | Call_max_age_dt time_duration
  | Call_domain string
  | Call_path string
  | Call_secure
  | Call_httponly
  | Call_same_site SameSitePolicy

datatype attribute = Expires | Max_Age | Domain | Path | Secure | HttpOnly | SameSite

fun apply_call :: "'t setter_call \<Rightarrow> 't Cookie \<Rightarrow> 't Cookie" where
  "apply_call (Call_expires t) c = expires c t"
| "apply_call (Call_max_age a) c = max_age c a"
| "apply_call (Call_max_age_dt dt) c = max_age_dt c dt"
| "apply_call (Call_domain d) c = domain c d"
| "apply_call (Call_path p) c = path c p"
| "apply_call Call_secure c = secure c"
| "apply_call Call_httponly c = httponly c"
| "apply_call (Call_same_site p) c = same_site c p"

fun target :: "'t setter_call \<Rightarrow> attribute" where
  "target (Call_expires t) = Expires"
| "target (Call_max_age a) = Max_Age"
| "target (Call_max_age_dt dt) = Max_Age"
| "target (Call_domain d) = Domain"
| "target (Call_path p) = Path"
| "target Call_secure = Secure"
| "target Call_httponly = HttpOnly"
| "target (Call_same_site p) = SameSite"

definition chain :: "'t setter_call list \<Rightarrow> 't Cookie \<Rightarrow> 't Cookie" where
  "chain calls c = fold apply_call calls c"

text \<open>
  The header value as section 4.1 of the specification words it: \<open>key=value\<close> with the
  empty value as two quote characters, then each present attribute, in the fixed order,
  after the separator; \<open>num\<close> renders the integer of Max-Age.
\<close>

definition present_attributes ::
  "('t \<Rightarrow> string) \<Rightarrow> (long_long \<Rightarrow> string) \<Rightarrow> 't Cookie \<Rightarrow> string list" where
  "present_attributes http_date num c =
     List.map_filter id
       [map_option (\<lambda>t. ''Expires='' @ http_date t) (expires_at_m c),
        map_option (\<lambda>a. ''Max-Age='' @ num a) (max_age_m c),
        (if domain_m c = [] then None else Some (''Domain='' @ domain_m c)),
        (if path_m c = [] then None else Some (''Path='' @ path_m c)),
        (if secure_m c then Some ''Secure'' else None),
        (if httponly_m c then Some ''HttpOnly'' else None),
        map_option (\<lambda>p. ''SameSite='' @ show_policy p) (same_site_m c)]"

definition format_spec ::
  "('t \<Rightarrow> string) \<Rightarrow> (long_long \<Rightarrow> string) \<Rightarrow> 't Cookie \<Rightarrow> string" where
  "format_spec http_date num c =
     key_m c @ ''='' @ (if value_m c = [] then [dquote, dquote] else value_m c)
       @ concat (map (\<lambda>a. ''; '' @ a) (present_attributes http_date num c))"

section \<open>The request-scoped context and the two hooks\<close>

record 't cp_context =
  jar :: jar_map
  cookies_to_add :: "'t Cookie list"

definition get_cookie :: "'t cp_context \<Rightarrow> string \<Rightarrow> string" where
  "get_cookie ctx k = (case jar ctx k of Some v \<Rightarrow> v | None \<Rightarrow> [])"

text \<open>
  \<^verbatim>\<open>set_cookie\<close> appends a fresh cookie to \<^verbatim>\<open>cookies_to_add\<close>; the reference it returns
  is the last element of the new list.
\<close>

definition set_cookie :: "'t cp_context \<Rightarrow> string \<Rightarrow> string \<Rightarrow> 't cp_context" where
  "set_cookie ctx k v = ctx\<lparr>cookies_to_add := cookies_to_add ctx @ [Cookie_ctor k v]\<rparr>"

text \<open>
  Modelled from the spec: the request and response objects (\<^verbatim>\<open>crow/http_request.h\<close>,
  \<^verbatim>\<open>crow/http_response.h\<close>) are not among the sources. A request carries a multi-map of
  headers, of which the hook reads the number of entries named \<open>Cookie\<close> and the value
  of one; a response has a status code, a finished flag set by \<^verbatim>\<open>end()\<close>, and a sequence
  of headers to which \<^verbatim>\<open>add_header\<close> appends.
\<close>

record request =
  headers :: "(string \<times> string) list"

record response =
  code :: int
  completed :: bool
  res_headers :: "(string \<times> string) list"

definition headers_count :: "request \<Rightarrow> string \<Rightarrow> nat" where
  "headers_count req k = length (filter (\<lambda>h. fst h = k) (headers req))"

definition get_header_value :: "request \<Rightarrow> string \<Rightarrow> string" where
  "get_header_value req k = (case map_of (headers req) k of Some v \<Rightarrow> v | None \<Rightarrow> [])"

definition response_end :: "response \<Rightarrow> response" where
  "response_end res = res\<lparr>completed := True\<rparr>"

definition add_header :: "response \<Rightarrow> string \<Rightarrow> string \<Rightarrow> response" where
  "add_header res k v = res\<lparr>res_headers := res_headers res @ [(k, v)]\<rparr>"

text \<open>
  \<^verbatim>\<open>before_handle\<close>, lines 185-230. The count of headers is converted to \<^verbatim>\<open>int\<close>; a
  request holds far fewer than \<open>2^31\<close> headers, where the conversion keeps the value. The
  scanning loop works on \<^verbatim>\<open>ctx.jar\<close> as it finds it.
\<close>

definition before_handle ::
  "request \<Rightarrow> response \<Rightarrow> 't cp_context \<Rightarrow> fault + (response \<times> 't cp_context)" where
  "before_handle req res ctx =
     (let count = headers_count req ''Cookie'' in
      if count = 0 then Inr (res, ctx)
      else if 1 < count then Inr (response_end (res\<lparr>code := 400\<rparr>), ctx)
      else
        (case parse_loop (get_header_value req ''Cookie'') 0 (jar ctx) of
           Inl e \<Rightarrow> Inl e
         | Inr jar' \<Rightarrow> Inr (res, ctx\<lparr>jar := jar'\<rparr>)))"

text \<open>
  \<^verbatim>\<open>after_handle\<close>, lines 232-238: the range-for over \<^verbatim>\<open>ctx.cookies_to_add\<close>, one call
  of \<open>format\<close> and one \<^verbatim>\<open>add_header\<close> per cookie, the facet's state passing from each call
  to the next.
\<close>

fun add_cookies ::
  "('t \<Rightarrow> string) \<Rightarrow> (long_long \<Rightarrow> string) \<Rightarrow> 't Cookie list \<Rightarrow> response \<Rightarrow> facet
     \<Rightarrow> fault + (response \<times> facet)" where
  "add_cookies http_date global_num [] res facet = Inr (res, facet)"
| "add_cookies http_date global_num (cookie # rest) res facet =
     (case format http_date global_num facet cookie of
        Inl e \<Rightarrow> Inl e
      | Inr (s, facet') \<Rightarrow>
          add_cookies http_date global_num rest (add_header res ''Set-Cookie'' s) facet')"

definition after_handle ::
  "('t \<Rightarrow> string) \<Rightarrow> (long_long \<Rightarrow> string) \<Rightarrow> facet \<Rightarrow> response \<Rightarrow> 't cp_context
     \<Rightarrow> fault + (response \<times> 't cp_context \<times> facet)" where
  "after_handle http_date global_num facet res ctx =
     (case add_cookies http_date global_num (cookies_to_add ctx) res facet of
        Inl e \<Rightarrow> Inl e
      | Inr (res', facet') \<Rightarrow> Inr (res', ctx, facet'))"

section \<open>Evaluation rules for concrete headers\<close>

lemmas parser_eval = find_char.simps skip_spaces.simps parse_loop.simps parse_step_def
  parse_cookies_def substr_def size_sub_def npos_def char_at_def strip_quotes_def trim_def
  is_space_def emplace_def dquote_def Let_def

lemmas cookie_eval = format_def after_handle_def add_header_def chain_def Cookie_ctor_def expires_def max_age_def
  max_age_dt_def domain_def path_def secure_def httponly_def same_site_def DIVIDER_def
  show_policy_def show_ll_def dec_digits.simps digit_char_def seconds_def total_seconds_def
  posix_seconds_def ticks_per_second_def signed_divide_int_def signed_modulo_int_def

section \<open>Serialisation\<close>

lemma apply_call_commute:
  "target a \<noteq> target b \<Longrightarrow> apply_call a (apply_call b c) = apply_call b (apply_call a c)"
  by (cases a; cases b)
     (simp_all add: expires_def max_age_def max_age_dt_def domain_def path_def secure_def
        httponly_def same_site_def)

lemma chain_permute:
  assumes "distinct (map target xs)" and "mset ys = mset xs"
  shows "chain ys c = chain xs c"
proof -
  have "apply_call x \<circ> apply_call y = apply_call y \<circ> apply_call x"
    if "x \<in> set xs" and "y \<in> set xs" for x y :: "'a setter_call"
  proof (cases "x = y")
    case True
    then show ?thesis by simp
  next
    case False
    with that assms(1) have "target x \<noteq> target y"
      by (meson distinct_map inj_onD)
    then show ?thesis by (auto simp: fun_eq_iff apply_call_commute)
  qed
  then have "fold apply_call xs = fold apply_call ys"
    using assms(2) by (intro fold_multiset_equiv) auto
  then show ?thesis by (simp add: chain_def)
qed

lemma format_no_expires:
  "expires_at_m c = None \<Longrightarrow> format hf gn facet c = Inr (format_spec hf gn c, facet)"
  by (simp add: format_def format_spec_def present_attributes_def List.map_filter_simps
      DIVIDER_def Let_def split: option.splits)

lemma format_expires_fresh:
  "expires_at_m c = Some t \<Longrightarrow>
     format hf gn Facet_fresh c = Inr (format_spec hf show_ll c, Facet_deleted)"
  by (simp add: format_def format_spec_def present_attributes_def List.map_filter_simps
      DIVIDER_def Let_def split: option.splits)

lemma format_expires_deleted:
  "expires_at_m c = Some t \<Longrightarrow> format hf gn Facet_deleted c = Inl UseAfterFree"
  by (simp add: format_def Let_def)

lemma format_cases:
  "format hf gn facet c =
     (if expires_at_m c \<noteq> None \<and> facet = Facet_deleted then Inl UseAfterFree
      else Inr (format_spec hf (if expires_at_m c = None then gn else show_ll) c,
                if expires_at_m c = None then facet else Facet_deleted))"
proof (cases "expires_at_m c")
  case None
  then show ?thesis by (simp add: format_no_expires)
next
  case (Some t)
  then show ?thesis
    by (cases facet) (simp_all add: format_expires_fresh format_expires_deleted)
qed

lemma format_examples:
  "format hf show_ll facet (same_site (httponly (secure (Cookie_ctor ''k'' ''v''))) Lax)
     = Inr (''k=v; Secure; HttpOnly; SameSite=Lax'', facet)"
  "format hf gn facet (Cookie_ctor ''k'' []) = Inr ([CHR ''k'', CHR ''='', dquote, dquote], facet)"
  "format hf gn Facet_fresh
       (path (domain (max_age (expires (Cookie_ctor ''k'' ''v'') t) 60) ''example.com'') ''/'')
     = Inr (''k=v; Expires='' @ hf t @ ''; Max-Age=60; Domain=example.com; Path=/'', Facet_deleted)"
  by (simp_all add: cookie_eval)

text \<open>
  Claim C1. Whenever \<open>format\<close> returns, its text is \<open>key=value\<close>, the empty value written
  as two quote characters, followed by the attributes that are set, in the order Expires,
  Max-Age, Domain, Path, Secure, HttpOnly, SameSite, each after the separator \<open>; \<close> and
  the absent ones left out; a chain of setter calls that write pairwise different
  attributes gives the same result in whatever order the calls are made. It does not
  return for every cookie: the first call that prints an Expires attribute leaves the
  time facet deleted, and every later call for a cookie with Expires set uses the deleted
  facet.
\<close>

theorem format_fixed_order:
  "format hf gn facet c =
     (if expires_at_m c \<noteq> None \<and> facet = Facet_deleted then Inl UseAfterFree
      else Inr (format_spec hf (if expires_at_m c = None then gn else show_ll) c,
                if expires_at_m c = None then facet else Facet_deleted))
   \<and> (distinct (map target xs) \<longrightarrow> mset ys = mset xs \<longrightarrow>
        format hf gn facet (chain ys c) = format hf gn facet (chain xs c))"
proof
  show "format hf gn facet c =
     (if expires_at_m c \<noteq> None \<and> facet = Facet_deleted then Inl UseAfterFree
      else Inr (format_spec hf (if expires_at_m c = None then gn else show_ll) c,
                if expires_at_m c = None then facet else Facet_deleted))"
    by (rule format_cases)
next
  show "distinct (map target xs) \<longrightarrow> mset ys = mset xs \<longrightarrow>
        format hf gn facet (chain ys c) = format hf gn facet (chain xs c)"
  proof (intro impI)
    assume "distinct (map target xs)" and "mset ys = mset xs"
    then have "chain ys c = chain xs c" by (rule chain_permute)
    then show "format hf gn facet (chain ys c) = format hf gn facet (chain xs c)" by simp
  qed
qed

theorem format_fixed_order_witness:
  "distinct (map target [Call_same_site Lax, Call_httponly, Call_secure :: unit setter_call])
   \<and> mset [Call_secure, Call_same_site Lax, Call_httponly :: unit setter_call]
       = mset [Call_same_site Lax, Call_httponly, Call_secure]
   \<and> format (\<lambda>t. ''T'') show_ll Facet_fresh
        (chain [Call_secure, Call_same_site Lax, Call_httponly] (Cookie_ctor ''k'' ''v''))
       = format (\<lambda>t. ''T'') show_ll Facet_fresh
           (chain [Call_same_site Lax, Call_httponly, Call_secure] (Cookie_ctor ''k'' ''v''))
   \<and> format (\<lambda>t. ''T'') show_ll Facet_fresh
        (chain [Call_same_site Lax, Call_httponly, Call_secure] (Cookie_ctor ''k'' ''v''))
       = Inr (''k=v; Secure; HttpOnly; SameSite=Lax'', Facet_fresh)
   \<and> format (\<lambda>t. ''T'') show_ll Facet_fresh (expires (Cookie_ctor ''k'' ''v'') ())
       = Inr (''k=v; Expires=T'', Facet_deleted)
   \<and> format (\<lambda>t. ''T'') show_ll Facet_deleted (expires (Cookie_ctor ''k'' ''v'') ())
       = Inl UseAfterFree"
  using format_fixed_order [of "\<lambda>t. ''T''" show_ll Facet_fresh
      "chain [Call_same_site Lax, Call_httponly, Call_secure] (Cookie_ctor ''k'' ''v'')"
      "[Call_same_site Lax, Call_httponly, Call_secure]"
      "[Call_secure, Call_same_site Lax, Call_httponly]"]
    format_fixed_order [of "\<lambda>t. ''T''" show_ll Facet_fresh "Cookie_ctor ''k'' ''v''"
      "[Call_same_site Lax, Call_httponly, Call_secure]"
      "[Call_secure, Call_same_site Lax, Call_httponly]"]
    format_fixed_order [of "\<lambda>t. ''T''" show_ll Facet_deleted
      "expires (Cookie_ctor ''k'' ''v'') ()" "[]" "[]"]
  by (simp add: cookie_eval format_spec_def present_attributes_def List.map_filter_simps)

text \<open>
  Claim C5. The duration overload of \<open>max_age\<close> writes the field the integer overload
  writes, but what it stores is the seconds component of the duration (below a minute),
  not the duration in whole seconds: for the duration of 90 seconds the header carries
  the rendering of 30, \<open>Max-Age=30\<close> in the classic locale, where the integer overload
  called with 90 gives \<open>Max-Age=90\<close>.
\<close>

theorem max_age_dt_seconds_component:
  "max_age_dt c dt = max_age c (word_of_int (seconds dt))
   \<and> total_seconds (posix_seconds 90) = 90
   \<and> format hf gn facet (max_age_dt (Cookie_ctor ''k'' ''v'') (posix_seconds 90))
       = Inr (''k=v; Max-Age='' @ gn 30, facet)
   \<and> format hf gn facet (max_age (Cookie_ctor ''k'' ''v'') 90)
       = Inr (''k=v; Max-Age='' @ gn 90, facet)
   \<and> format hf show_ll facet (max_age_dt (Cookie_ctor ''k'' ''v'') (posix_seconds 90))
       = Inr (''k=v; Max-Age=30'', facet)
   \<and> format hf show_ll facet (max_age (Cookie_ctor ''k'' ''v'') 90)
       = Inr (''k=v; Max-Age=90'', facet)"
  by (simp add: cookie_eval)

section \<open>The hooks\<close>

lemma add_cookies_cases:
  "add_cookies hf gn cs res facet =
     (if length (filter (\<lambda>c. expires_at_m c \<noteq> None) cs) \<le> (if facet = Facet_fresh then 1 else 0)
      then Inr (res\<lparr>res_headers := res_headers res
                  @ map (\<lambda>c. (''Set-Cookie'',
                          format_spec hf (if expires_at_m c = None then gn else show_ll) c)) cs\<rparr>,
                if filter (\<lambda>c. expires_at_m c \<noteq> None) cs = [] then facet else Facet_deleted)
      else Inl UseAfterFree)"
proof (induction cs arbitrary: res facet)
  case Nil
  then show ?case by simp
next
  case (Cons c cs)
  show ?case
  proof (cases "expires_at_m c")
    case None
    then have "format hf gn facet c = Inr (format_spec hf gn c, facet)"
      by (rule format_no_expires)
    with None show ?thesis
      by (simp add: Cons.IH add_header_def)
  next
    case (Some t)
    show ?thesis
    proof (cases facet)
      case Facet_fresh
      with Some have "format hf gn facet c = Inr (format_spec hf show_ll c, Facet_deleted)"
        by (simp add: format_expires_fresh)
      with Some Facet_fresh show ?thesis
        by (simp add: Cons.IH add_header_def)
    next
      case Facet_deleted
      with Some have "format hf gn facet c = Inl UseAfterFree"
        by (simp add: format_expires_deleted)
      with Some Facet_deleted show ?thesis by simp
    qed
  qed
qed

text \<open>
  Claim C8. Whenever \<open>after_handle\<close> returns, it has appended to the response one
  \<open>Set-Cookie\<close> header for each entry of \<open>cookies_to_add\<close>, its value the entry's
  \<open>format\<close> text, in the order of the list, and the context is as it was; \<open>set_cookie\<close>
  stages at the end of that list. It returns exactly when at most one staged cookie has
  Expires set and the time facet is still fresh (none, when the facet is deleted): with
  two staged cookies that have Expires set, the second call of \<open>format\<close> uses the facet
  the first one left deleted.
\<close>

theorem after_handle_appends_in_order:
  "after_handle hf gn facet res ctx =
     (if length (filter (\<lambda>c. expires_at_m c \<noteq> None) (cookies_to_add ctx))
           \<le> (if facet = Facet_fresh then 1 else 0)
      then Inr (res\<lparr>res_headers := res_headers res
                  @ map (\<lambda>c. (''Set-Cookie'',
                          format_spec hf (if expires_at_m c = None then gn else show_ll) c))
                      (cookies_to_add ctx)\<rparr>,
                ctx,
                if filter (\<lambda>c. expires_at_m c \<noteq> None) (cookies_to_add ctx) = [] then facet
                else Facet_deleted)
      else Inl UseAfterFree)
   \<and> cookies_to_add (set_cookie ctx k v) = cookies_to_add ctx @ [Cookie_ctor k v]"
  by (simp add: after_handle_def add_cookies_cases set_cookie_def)

theorem after_handle_appends_in_order_witness:
  "after_handle (\<lambda>t::unit. ''T'') show_ll Facet_fresh
      \<lparr>code = 200, completed = False, res_headers = []\<rparr>
      (set_cookie (set_cookie \<lparr>jar = Map.empty, cookies_to_add = []\<rparr> ''a'' ''1'') ''b'' ''2'')
     = Inr (\<lparr>code = 200, completed = False,
              res_headers = [(''Set-Cookie'', ''a=1''), (''Set-Cookie'', ''b=2'')]\<rparr>,
            \<lparr>jar = Map.empty, cookies_to_add = [Cookie_ctor ''a'' ''1'', Cookie_ctor ''b'' ''2'']\<rparr>,
            Facet_fresh)
   \<and> after_handle (\<lambda>t::unit. ''T'') show_ll Facet_fresh
      \<lparr>code = 200, completed = False, res_headers = []\<rparr>
      \<lparr>jar = Map.empty,
        cookies_to_add = [expires (Cookie_ctor ''a'' ''1'') (), expires (Cookie_ctor ''b'' ''2'') ()]\<rparr>
     = Inl UseAfterFree"
  using after_handle_appends_in_order [of "\<lambda>t::unit. ''T''" show_ll Facet_fresh
      "\<lparr>code = 200, completed = False, res_headers = []\<rparr>"
      "set_cookie (set_cookie \<lparr>jar = Map.empty, cookies_to_add = []\<rparr> ''a'' ''1'') ''b'' ''2''"]
    after_handle_appends_in_order [of "\<lambda>t::unit. ''T''" show_ll Facet_fresh
      "\<lparr>code = 200, completed = False, res_headers = []\<rparr>"
      "\<lparr>jar = Map.empty,
        cookies_to_add = [expires (Cookie_ctor ''a'' ''1'') (), expires (Cookie_ctor ''b'' ''2'') ()]\<rparr>"]
  by (simp add: set_cookie_def Cookie_ctor_def expires_def format_spec_def
      present_attributes_def List.map_filter_simps)

text \<open>
  Claim C2. With no \<open>Cookie\<close> header \<open>before_handle\<close> returns the response and the
  context unchanged; with two or more it sets the status to 400, marks the response
  finished and leaves the context (so the jar) unchanged; with exactly one the jar
  becomes what the scanning loop makes of that header's value.
\<close>

theorem before_handle_by_count:
  "(headers_count req ''Cookie'' = 0 \<longrightarrow> before_handle req res ctx = Inr (res, ctx))
   \<and> (2 \<le> headers_count req ''Cookie'' \<longrightarrow>
        before_handle req res ctx = Inr (res\<lparr>code := 400, completed := True\<rparr>, ctx))
   \<and> (headers_count req ''Cookie'' = 1 \<longrightarrow>
        before_handle req res ctx =
          map_sum id (\<lambda>j. (res, ctx\<lparr>jar := j\<rparr>))
            (parse_loop (get_header_value req ''Cookie'') 0 (jar ctx)))"
  by (auto simp: before_handle_def response_end_def Let_def split: sum.splits)

theorem before_handle_by_count_witness:
  "headers_count \<lparr>headers = [(''Host'', ''x'')]\<rparr> ''Cookie'' = 0
   \<and> before_handle \<lparr>headers = [(''Host'', ''x'')]\<rparr>
        \<lparr>code = 200, completed = False, res_headers = []\<rparr>
        \<lparr>jar = Map.empty, cookies_to_add = ([] :: unit Cookie list)\<rparr>
       = Inr (\<lparr>code = 200, completed = False, res_headers = []\<rparr>,
              \<lparr>jar = Map.empty, cookies_to_add = []\<rparr>)
   \<and> 2 \<le> headers_count \<lparr>headers = [(''Cookie'', ''a=1''), (''Cookie'', ''b=2'')]\<rparr> ''Cookie''
   \<and> before_handle \<lparr>headers = [(''Cookie'', ''a=1''), (''Cookie'', ''b=2'')]\<rparr>
        \<lparr>code = 200, completed = False, res_headers = []\<rparr>
        \<lparr>jar = Map.empty, cookies_to_add = ([] :: unit Cookie list)\<rparr>
       = Inr (\<lparr>code = 400, completed = True, res_headers = []\<rparr>,
              \<lparr>jar = Map.empty, cookies_to_add = []\<rparr>)
   \<and> headers_count \<lparr>headers = [(''Host'', ''x''), (''Cookie'', ''a=1'')]\<rparr> ''Cookie'' = 1
   \<and> before_handle \<lparr>headers = [(''Host'', ''x''), (''Cookie'', ''a=1'')]\<rparr>
        \<lparr>code = 200, completed = False, res_headers = []\<rparr>
        \<lparr>jar = Map.empty, cookies_to_add = ([] :: unit Cookie list)\<rparr>
       = Inr (\<lparr>code = 200, completed = False, res_headers = []\<rparr>,
              \<lparr>jar = [''a'' \<mapsto> ''1''], cookies_to_add = []\<rparr>)"
  using before_handle_by_count [of "\<lparr>headers = [(''Host'', ''x'')]\<rparr>"
      "\<lparr>code = 200, completed = False, res_headers = []\<rparr>"
      "\<lparr>jar = Map.empty, cookies_to_add = ([] :: unit Cookie list)\<rparr>"]
    before_handle_by_count [of "\<lparr>headers = [(''Cookie'', ''a=1''), (''Cookie'', ''b=2'')]\<rparr>"
      "\<lparr>code = 200, completed = False, res_headers = []\<rparr>"
      "\<lparr>jar = Map.empty, cookies_to_add = ([] :: unit Cookie list)\<rparr>"]
    before_handle_by_count [of "\<lparr>headers = [(''Host'', ''x''), (''Cookie'', ''a=1'')]\<rparr>"
      "\<lparr>code = 200, completed = False, res_headers = []\<rparr>"
      "\<lparr>jar = Map.empty, cookies_to_add = ([] :: unit Cookie list)\<rparr>"]
  by (simp add: headers_count_def get_header_value_def parser_eval)

section \<open>Quote stripping\<close>

text \<open>
  Claim C7. A trimmed value that is one double-quote character passes the quote check,
  both reads hitting that character, and \<open>size - 2\<close> wraps, so the value is replaced by
  the empty string instead of being left as it is.
\<close>

theorem strip_quotes_single_quote:
  "strip_quotes [dquote] = Inr []
   \<and> parse_cookies (''a='' @ [dquote]) = Inr [''a'' \<mapsto> []]"
  by (simp add: parser_eval)

section \<open>Properties of the scanning loop\<close>

lemma find_char_hit:
  assumes "pos \<le> i" and "i < length s" and "s ! i = c"
    and "\<forall>j. pos \<le> j \<and> j < i \<longrightarrow> s ! j \<noteq> c"
  shows "find_char s c pos = i"
  using assms
proof (induction "i - pos" arbitrary: pos)
  case 0
  then have "pos = i" by simp
  with 0 show ?case by (simp add: find_char.simps [of s c i])
next
  case (Suc n)
  then have lt: "pos < i" by simp
  with Suc.prems have ne: "s ! pos \<noteq> c" by simp
  from Suc.hyps(2) lt have "n = i - (pos + 1)" by simp
  moreover from lt have "pos + 1 \<le> i" by simp
  moreover from Suc.prems(4) have "\<forall>j. pos + 1 \<le> j \<and> j < i \<longrightarrow> s ! j \<noteq> c" by simp
  ultimately have "find_char s c (pos + 1) = i"
    using Suc.hyps(1) Suc.prems(2,3) by blast
  moreover from lt Suc.prems(2) ne have "find_char s c pos = find_char s c (pos + 1)"
    by (simp add: find_char.simps [of s c pos])
  ultimately show ?case by simp
qed

lemma find_char_miss:
  "\<forall>j. pos \<le> j \<and> j < length s \<longrightarrow> s ! j \<noteq> c \<Longrightarrow> find_char s c pos = npos"
proof (induction s c pos rule: find_char.induct)
  case (1 s c pos)
  show ?case
  proof (cases "pos < length s")
    case True
    with 1(2) have ne: "s ! pos \<noteq> c" by simp
    from 1(2) have "\<forall>j. pos + 1 \<le> j \<and> j < length s \<longrightarrow> s ! j \<noteq> c" by simp
    with 1(1) True ne have "find_char s c (pos + 1) = npos" by blast
    with True ne show ?thesis by (simp add: find_char.simps [of s c pos])
  next
    case False
    then show ?thesis by (simp add: find_char.simps [of s c pos])
  qed
qed

lemma skip_spaces_stop:
  "\<not> (pos < length cookies \<and> cookies ! pos = CHR '' '') \<Longrightarrow> skip_spaces cookies pos = pos"
  by (auto simp: skip_spaces.simps [of cookies pos])

lemma skip_spaces_le: "pos \<le> length cookies \<Longrightarrow> skip_spaces cookies pos \<le> length cookies"
proof (induction cookies pos rule: skip_spaces.induct)
  case (1 cookies pos)
  show ?case
  proof (cases "pos < length cookies \<and> cookies ! pos = CHR '' ''")
    case True
    with 1 have "skip_spaces cookies (pos + 1) \<le> length cookies" by simp
    with True show ?thesis by (simp add: skip_spaces.simps [of cookies pos])
  next
    case False
    with 1(2) show ?thesis by (simp add: skip_spaces_stop)
  qed
qed

lemma wrap_sub_mod:
  fixes a b m :: nat
  assumes "b \<le> a"
  shows "(a + m - b) mod m = (a - b) mod m"
proof -
  from assms have "a + m - b = (a - b) + m" by simp
  then show ?thesis by simp
qed

lemma size_sub_le: "b \<le> a \<Longrightarrow> a < 2 ^ 64 \<Longrightarrow> size_sub a b = a - b"
  unfolding size_sub_def by (subst wrap_sub_mod) simp_all

lemma size_sub_npos: "b \<le> npos \<Longrightarrow> size_sub npos b = npos - b"
  unfolding size_sub_def by (subst wrap_sub_mod) (simp_all add: npos_def)

lemma trim_fixed_hd:
  assumes "trim s = s" and "s \<noteq> []"
  shows "\<not> is_space (hd s)"
proof -
  from assms have "dropWhile is_space (rev (dropWhile is_space (rev s))) \<noteq> []"
    by (simp add: trim_def)
  then have "\<not> is_space (hd (dropWhile is_space (rev (dropWhile is_space (rev s)))))"
    by (rule hd_dropWhile)
  with assms(1) show ?thesis by (simp add: trim_def)
qed

lemma strip_quotes_unquoted:
  assumes "\<not> (val \<noteq> [] \<and> hd val = dquote \<and> last val = dquote)" and "length val < 2 ^ 64"
  shows "strip_quotes val = Inr val"
proof (cases "val = []")
  case True
  then show ?thesis by (simp add: strip_quotes_def char_at_def dquote_def)
next
  case False
  then have c0: "char_at val 0 = Inr (hd val)"
    by (simp add: char_at_def hd_conv_nth)
  from False assms(2) have "size_sub (length val) 1 = length val - 1"
    by (intro size_sub_le) (simp_all add: Suc_leI)
  with False have c1: "char_at val (size_sub (length val) 1) = Inr (last val)"
    by (simp add: char_at_def last_conv_nth)
  from assms(1) False c0 c1 show ?thesis
    by (auto simp: strip_quotes_def)
qed

lemma strip_quotes_no_fault: "\<exists>v. strip_quotes val = Inr v"
proof (cases "val = []")
  case True
  then show ?thesis by (simp add: strip_quotes_def char_at_def dquote_def)
next
  case False
  then have c0: "char_at val 0 = Inr (hd val)"
    by (simp add: char_at_def hd_conv_nth)
  have "size_sub (length val) 1 < length val"
  proof -
    from False have "1 \<le> length val" by (simp add: Suc_leI)
    then have "size_sub (length val) 1 = (length val - 1) mod 2 ^ 64"
      unfolding size_sub_def by (rule wrap_sub_mod)
    also have "\<dots> \<le> length val - 1" by (rule mod_less_eq_dividend)
    also from False have "\<dots> < length val" by simp
    finally show ?thesis .
  qed
  then obtain ch where c1: "char_at val (size_sub (length val) 1) = Inr ch"
    by (simp add: char_at_def)
  from False have "\<exists>v. substr val 1 n = Inr v" for n
    by (cases val) (simp_all add: substr_def)
  with c0 c1 show ?thesis
    by (auto simp: strip_quotes_def)
qed

lemma strip_quotes_wrapped:
  assumes "2 \<le> length val" and "hd val = dquote" and "last val = dquote"
    and "length val < 2 ^ 64"
  shows "strip_quotes val = Inr (butlast (tl val))"
proof -
  from assms(1) have ne: "val \<noteq> []" by auto
  then have c0: "char_at val 0 = Inr (hd val)"
    by (simp add: char_at_def hd_conv_nth)
  from assms(1,4) have s1: "size_sub (length val) 1 = length val - 1"
    by (intro size_sub_le) simp_all
  from assms(1,4) have s2: "size_sub (length val) 2 = length val - 2"
    by (intro size_sub_le) simp_all
  from ne s1 have c1: "char_at val (size_sub (length val) 1) = Inr (last val)"
    by (simp add: char_at_def last_conv_nth)
  have tk: "take (length val - 2) (drop 1 val) = butlast (tl val)"
    by (simp add: butlast_conv_take drop_Suc numeral_2_eq_2)
  from ne have "\<not> length val < 1" by simp
  then have "substr val 1 (size_sub (length val) 2) = Inr (take (length val - 2) (drop 1 val))"
    unfolding substr_def s2 by (rule if_not_P)
  then have "substr val 1 (size_sub (length val) 2) = Inr (butlast (tl val))"
    unfolding tk .
  with c0 c1 assms(2,3) show ?thesis
    by (simp add: strip_quotes_def)
qed

lemma parse_single_pair:
  assumes eq: "CHR ''='' \<notin> set name" and semi: "CHR '';'' \<notin> set raw"
    and ne: "raw \<noteq> []" and sp: "hd raw \<noteq> CHR '' ''"
    and len: "length (name @ CHR ''='' # raw) < npos"
    and sq: "strip_quotes (trim raw) = Inr v"
  shows "parse_loop (name @ CHR ''='' # raw) 0 jar0 = Inr (emplace jar0 (trim name) v)"
proof -
  let ?s = "name @ CHR ''='' # raw"
  let ?n = "length name"
  have pe: "find_char ?s (CHR ''='') 0 = ?n"
  proof (rule find_char_hit)
    show "\<forall>j. 0 \<le> j \<and> j < ?n \<longrightarrow> ?s ! j \<noteq> CHR ''=''"
      using eq by (auto simp: nth_append dest: nth_mem)
  qed simp_all
  from len have n_lt: "?n < npos" and n_lt': "?n < 2 ^ 64"
    by (simp_all add: npos_def)
  have name0: "substr ?s 0 (size_sub ?n 0) = Inr name"
    using n_lt' by (simp add: substr_def size_sub_le)
  have "?s ! (?n + 1) = hd raw"
    using ne by (simp add: nth_append hd_conv_nth)
  with sp have p1: "skip_spaces ?s (?n + 1) = ?n + 1"
    by (intro skip_spaces_stop) simp
  from ne have p1_ne: "?n + 1 \<noteq> length ?s" by simp
  have ps: "find_char ?s (CHR '';'') (?n + 1) = npos"
  proof (rule find_char_miss, intro allI impI)
    fix j assume j: "?n + 1 \<le> j \<and> j < length ?s"
    then have "?s ! j = raw ! (j - (?n + 1))"
      by (auto simp: nth_append nth_Cons')
    moreover from j have "j - (?n + 1) < length raw" by auto
    ultimately have "?s ! j \<in> set raw" by simp
    with semi show "?s ! j \<noteq> CHR '';''" by auto
  qed
  from len have "?n + 1 \<le> npos" and "length raw \<le> npos - (?n + 1)" by simp_all
  then have value0: "substr ?s (?n + 1) (size_sub npos (?n + 1)) = Inr raw"
    by (simp add: substr_def size_sub_npos)
  from n_lt have pe_ne: "?n \<noteq> npos" by simp
  have "parse_step ?s 0 jar0 = Inr (Exit (emplace jar0 (trim name) v))"
    unfolding parse_step_def pe Let_def
    using pe_ne name0 p1 p1_ne ps value0 sq by simp
  then show ?thesis
    by (simp add: parse_loop.simps [of ?s 0 jar0])
qed

lemma find_char_lt: "find_char s c pos \<noteq> npos \<Longrightarrow> find_char s c pos < length s"
  using find_char_bounds [of s c pos] by blast

lemma parse_step_no_fault:
  assumes "pos < length cookies"
  shows "\<exists>st. parse_step cookies pos jar0 = Inr st"
proof (cases "find_char cookies (CHR ''='') pos = npos")
  case True
  then show ?thesis by (simp add: parse_step_def)
next
  case False
  let ?pe = "find_char cookies (CHR ''='') pos"
  let ?p1 = "skip_spaces cookies (?pe + 1)"
  let ?ps = "find_char cookies (CHR '';'') ?p1"
  from assms obtain name0 where n0: "substr cookies pos (size_sub ?pe pos) = Inr name0"
    by (simp add: substr_def)
  from False have "?pe + 1 \<le> length cookies"
    using find_char_lt [of cookies "CHR ''=''" pos] by simp
  then have "?p1 \<le> length cookies" by (rule skip_spaces_le)
  then obtain value0 where v0: "substr cookies ?p1 (size_sub ?ps ?p1) = Inr value0"
    by (simp add: substr_def)
  obtain v where v: "strip_quotes (trim value0) = Inr v"
    using strip_quotes_no_fault by blast
  from False n0 v0 v show ?thesis
    by (simp add: parse_step_def Let_def)
qed

lemma parse_loop_no_fault: "\<exists>jar1. parse_loop cookies pos jar0 = Inr jar1"
proof (induction cookies pos jar0 rule: parse_loop.induct)
  case (1 cookies pos jar0)
  show ?case
  proof (cases "pos < length cookies")
    case False
    then show ?thesis by (simp add: parse_loop.simps [of cookies pos jar0])
  next
    case True
    then obtain st where st: "parse_step cookies pos jar0 = Inr st"
      using parse_step_no_fault by blast
    show ?thesis
    proof (cases st)
      case (Exit j)
      with True st show ?thesis by (simp add: parse_loop.simps [of cookies pos jar0])
    next
      case (Continue p j)
      with 1 True st have "\<exists>jar1. parse_loop cookies p j = Inr jar1" by blast
      with True st Continue show ?thesis by (simp add: parse_loop.simps [of cookies pos jar0])
    qed
  qed
qed




lemma parse_iter_unfold:
  "parse_iter n cookies pos jar0 =
     (if n = 0 then None
      else if pos < length cookies then
        (case parse_step cookies pos jar0 of
           Inl e \<Rightarrow> Some (Inl e)
         | Inr (Exit jar1) \<Rightarrow> Some (Inr jar1)
         | Inr (Continue pos' jar1) \<Rightarrow> parse_iter (n - 1) cookies pos' jar1)
      else Some (Inr jar0))"
proof (cases n)
  case 0
  then show ?thesis by simp
next
  case (Suc m)
  show ?thesis unfolding Suc by (simp split: sum.splits step.splits)
qed

lemma parse_step_within:
  assumes "parse_step cookies pos jar0 = Inr (Continue pos' jar1)"
  shows "pos' \<le> length cookies"
proof -
  let ?pe = "find_char cookies (CHR ''='') pos"
  let ?p1 = "skip_spaces cookies (?pe + 1)"
  let ?ps = "find_char cookies (CHR '';'') ?p1"
  from parse_step_Continue [OF assms]
  have ps: "?ps \<noteq> npos" and p': "pos' = skip_spaces cookies (?ps + 1)"
    by blast+
  from ps have "?ps + 1 \<le> length cookies"
    using find_char_lt [of cookies "CHR '';''" ?p1] by simp
  then show ?thesis unfolding p' by (rule skip_spaces_le)
qed

lemma parse_iter_enough:
  "length cookies - pos < n \<Longrightarrow> parse_iter n cookies pos jar0 = Some (parse_loop cookies pos jar0)"
proof (induction n arbitrary: pos jar0)
  case 0
  then show ?case by simp
next
  case (Suc n)
  show ?case
  proof (cases "pos < length cookies")
    case False
    then show ?thesis by (simp add: parse_loop.simps [of cookies pos jar0])
  next
    case True
    show ?thesis
    proof (cases "parse_step cookies pos jar0")
      case (Inl e)
      with True show ?thesis by (simp add: parse_loop.simps [of cookies pos jar0])
    next
      case (Inr st)
      show ?thesis
      proof (cases st)
        case (Exit j)
        with True Inr show ?thesis by (simp add: parse_loop.simps [of cookies pos jar0])
      next
        case (Continue p j)
        with Inr have "pos < p" by (simp add: parse_step_advances)
        with Suc.prems True have "length cookies - p < n" by linarith
        then have "parse_iter n cookies p j = Some (parse_loop cookies p j)"
          by (rule Suc.IH)
        with True Inr Continue show ?thesis
          by (simp add: parse_loop.simps [of cookies pos jar0])
      qed
    qed
  qed
qed

text \<open>
  Claim C10. A pass through the loop body that does not leave the loop ends at a position
  strictly greater than the one it started from and not beyond the end of the header; so
  the loop needs at most \<open>size - pos + 1\<close> tests of its condition, and parsing returns a
  jar for every header string.
\<close>

theorem parse_loop_terminates:
  "(parse_step cookies pos jar0 = Inr (Continue pos' jar1) \<longrightarrow>
      pos < pos' \<and> pos' \<le> length cookies)
   \<and> parse_iter (Suc (length cookies - pos)) cookies pos jar0
       = Some (parse_loop cookies pos jar0)
   \<and> (\<exists>jar2. parse_cookies cookies = Inr jar2)"
  using parse_step_advances [of cookies pos jar0 pos' jar1]
    parse_step_within [of cookies pos jar0 pos' jar1]
    parse_iter_enough [of cookies pos "Suc (length cookies - pos)" jar0]
    parse_loop_no_fault [of cookies 0 Map.empty]
  by (simp add: parse_cookies_def)

theorem parse_loop_terminates_witness:
  "parse_step ''a=1; b=2'' 0 Map.empty = Inr (Continue 5 [''a'' \<mapsto> ''1''])
   \<and> (0::nat) < 5 \<and> 5 \<le> length ''a=1; b=2''
   \<and> parse_iter 9 ''a=1; b=2'' 0 Map.empty = Some (Inr [''a'' \<mapsto> ''1'', ''b'' \<mapsto> ''2''])"
  using parse_loop_terminates [of "''a=1; b=2''" 0 Map.empty 5 "[''a'' \<mapsto> ''1'']"]
  by (simp add: parser_eval parse_iter_unfold)






text \<open>
  Claim C4. The quote check on the empty string reads the terminating null character,
  which is inside the string's storage and is not a quote: the empty value is returned
  unchanged and without a fault. Hence a pass whose trimmed value is empty puts the pair
  with the empty value into the jar, no header makes the parser read out of bounds, and
  \<open>a=;b=c\<close> yields \<open>{a: "", b: c}\<close>.
\<close>

theorem empty_value_accepted:
  "strip_quotes [] = Inr []
   \<and> (pos < length cookies \<longrightarrow>
       (let pos_equal = find_char cookies (CHR ''='') pos;
            pos1 = skip_spaces cookies (pos_equal + 1);
            pos_semicolon = find_char cookies (CHR '';'') pos1;
            jar1 = emplace jar0 (trim (take (size_sub pos_equal pos) (drop pos cookies))) []
        in pos_equal \<noteq> npos \<longrightarrow> pos1 \<noteq> length cookies \<longrightarrow>
           trim (take (size_sub pos_semicolon pos1) (drop pos1 cookies)) = [] \<longrightarrow>
           parse_step cookies pos jar0 =
             Inr (if pos_semicolon = npos then Exit jar1
                  else Continue (skip_spaces cookies (pos_semicolon + 1)) jar1)))
   \<and> parse_loop cookies pos jar0 \<noteq> Inl f
   \<and> parse_cookies ''a=;b=c'' = Inr [''a'' \<mapsto> [], ''b'' \<mapsto> ''c'']"
proof (intro conjI)
  show e: "strip_quotes [] = Inr []"
    by (simp add: strip_quotes_def char_at_def dquote_def)
  show "parse_loop cookies pos jar0 \<noteq> Inl f"
    using parse_loop_no_fault [of cookies pos jar0] by auto
  show "parse_cookies ''a=;b=c'' = Inr [''a'' \<mapsto> [], ''b'' \<mapsto> ''c'']"
    by (simp add: parser_eval)
  show "pos < length cookies \<longrightarrow>
       (let pos_equal = find_char cookies (CHR ''='') pos;
            pos1 = skip_spaces cookies (pos_equal + 1);
            pos_semicolon = find_char cookies (CHR '';'') pos1;
            jar1 = emplace jar0 (trim (take (size_sub pos_equal pos) (drop pos cookies))) []
        in pos_equal \<noteq> npos \<longrightarrow> pos1 \<noteq> length cookies \<longrightarrow>
           trim (take (size_sub pos_semicolon pos1) (drop pos1 cookies)) = [] \<longrightarrow>
           parse_step cookies pos jar0 =
             Inr (if pos_semicolon = npos then Exit jar1
                  else Continue (skip_spaces cookies (pos_semicolon + 1)) jar1))"
  proof (intro impI, unfold Let_def, intro impI)
    let ?pe = "find_char cookies (CHR ''='') pos"
    let ?p1 = "skip_spaces cookies (?pe + 1)"
    let ?ps = "find_char cookies (CHR '';'') ?p1"
    assume pos: "pos < length cookies" and pe: "?pe \<noteq> npos" and p1: "?p1 \<noteq> length cookies"
      and tr: "trim (take (size_sub ?ps ?p1) (drop ?p1 cookies)) = []"
    from pos have n0: "substr cookies pos (size_sub ?pe pos)
        = Inr (take (size_sub ?pe pos) (drop pos cookies))"
      by (simp add: substr_def)
    from pe have "?pe + 1 \<le> length cookies"
      using find_char_lt [of cookies "CHR ''=''" pos] by simp
    then have "?p1 \<le> length cookies" by (rule skip_spaces_le)
    then have v0: "substr cookies ?p1 (size_sub ?ps ?p1)
        = Inr (take (size_sub ?ps ?p1) (drop ?p1 cookies))"
      by (simp add: substr_def)
    have step: "parse_step cookies pos jar0 =
        (case strip_quotes (trim (take (size_sub ?ps ?p1) (drop ?p1 cookies))) of
           Inl e \<Rightarrow> Inl e
         | Inr val \<Rightarrow>
             if ?ps = npos
             then Inr (Exit (emplace jar0
                    (trim (take (size_sub ?pe pos) (drop pos cookies))) val))
             else Inr (Continue (skip_spaces cookies (?ps + 1))
                    (emplace jar0 (trim (take (size_sub ?pe pos) (drop pos cookies))) val)))"
      unfolding parse_step_def Let_def n0 v0 using pe p1 by (simp only: if_False sum.case)
    show "parse_step cookies pos jar0 =
        Inr (if ?ps = npos
             then Exit (emplace jar0 (trim (take (size_sub ?pe pos) (drop pos cookies))) [])
             else Continue (skip_spaces cookies (?ps + 1))
                    (emplace jar0 (trim (take (size_sub ?pe pos) (drop pos cookies))) []))"
      unfolding step tr e by (simp only: sum.case if_distrib [of Inr])
  qed
qed

theorem empty_value_accepted_witness:
  "(0::nat) < length ''a=;b=c''
   \<and> find_char ''a=;b=c'' (CHR ''='') 0 = 1
   \<and> trim (take (size_sub 2 2) (drop 2 ''a=;b=c'')) = []
   \<and> parse_step ''a=;b=c'' 0 Map.empty = Inr (Continue 3 [''a'' \<mapsto> []])"
proof -
  have a: "find_char ''a=;b=c'' (CHR ''='') 0 = 1"
    by (simp add: find_char.simps)
  have b: "skip_spaces ''a=;b=c'' (1 + 1) = 2"
    by (simp add: skip_spaces.simps)
  have c: "find_char ''a=;b=c'' (CHR '';'') 2 = 2"
    by (simp add: find_char.simps)
  have d: "skip_spaces ''a=;b=c'' (2 + 1) = 3"
    by (simp add: skip_spaces.simps)
  have t: "trim (take (size_sub 2 2) (drop 2 ''a=;b=c'')) = []"
    by (simp add: size_sub_def trim_def)
  have n: "trim (take (size_sub 1 0) (drop 0 ''a=;b=c'')) = ''a''"
    by (simp add: size_sub_def trim_def is_space_def)
  have e: "emplace Map.empty ''a'' [] = [''a'' \<mapsto> []]"
    by (simp add: emplace_def)
  have "parse_step ''a=;b=c'' 0 Map.empty = Inr (Continue 3 [''a'' \<mapsto> []])"
    using empty_value_accepted [of 0 "''a=;b=c''" Map.empty]
    unfolding Let_def a b c d t n e by (simp add: npos_def)
  with a t show ?thesis by simp
qed

lemma hd_not_blank:
  assumes "trim s = s" and "s \<noteq> []"
  shows "hd s \<noteq> CHR '' ''"
  using trim_fixed_hd [OF assms] by (auto simp: is_space_def)

text \<open>
  Claim C3, amended. For a name and a non-empty value without \<open>=\<close>, \<open>;\<close>, double quote
  or surrounding whitespace (and a header within the size range of a string), parsing
  \<open>name=value\<close> yields the jar \<open>{name: value}\<close>; parsing \<open>a=1; b=2; c=3\<close> yields
  \<open>{a: 1, b: 2, c: 3}\<close>. With the empty value the header \<open>name=\<close> ends after the
  equals sign and the loop leaves without an entry, which is the counterexample to the
  claim as stated.
\<close>

theorem parse_plain_pair:
  assumes "CHR ''='' \<notin> set name" and "CHR '';'' \<notin> set name" and "dquote \<notin> set name"
    and "trim name = name"
    and "CHR ''='' \<notin> set val" and "CHR '';'' \<notin> set val" and "dquote \<notin> set val"
    and "trim val = val"
    and "val \<noteq> []"
    and "length (name @ ''='' @ val) < npos"
  shows "parse_cookies (name @ ''='' @ val) = Inr [name \<mapsto> val]
    \<and> parse_cookies ''a=1; b=2; c=3'' = Inr [''a'' \<mapsto> ''1'', ''b'' \<mapsto> ''2'', ''c'' \<mapsto> ''3'']"
proof
  from assms(9,7) have "\<not> (val \<noteq> [] \<and> hd val = dquote \<and> last val = dquote)"
    using hd_in_set [of val] by metis
  moreover from assms(10) have "length val < 2 ^ 64" by (simp add: npos_def)
  ultimately have "strip_quotes val = Inr val" by (rule strip_quotes_unquoted)
  with assms(8) have sq: "strip_quotes (trim val) = Inr val" by simp
  from assms(10) have len: "length (name @ CHR ''='' # val) < npos" by simp
  have "parse_loop (name @ CHR ''='' # val) 0 Map.empty = Inr (emplace Map.empty (trim name) val)"
    using assms(1,6,9) hd_not_blank [OF assms(8,9)] len sq by (rule parse_single_pair)
  with assms(4) show "parse_cookies (name @ ''='' @ val) = Inr [name \<mapsto> val]"
    by (simp add: parse_cookies_def emplace_def)
next
  show "parse_cookies ''a=1; b=2; c=3''
      = Inr [''a'' \<mapsto> ''1'', ''b'' \<mapsto> ''2'', ''c'' \<mapsto> ''3'']"
    by (simp add: parser_eval)
qed

theorem parse_plain_pair_witness:
  "trim ''sid'' = ''sid'' \<and> trim ''abc123'' = ''abc123''
   \<and> parse_cookies (''sid'' @ ''='' @ ''abc123'') = Inr [''sid'' \<mapsto> ''abc123'']"
proof -
  have t1: "trim ''sid'' = ''sid''" and t2: "trim ''abc123'' = ''abc123''"
    by (simp_all add: trim_def is_space_def)
  have "parse_cookies (''sid'' @ ''='' @ ''abc123'') = Inr [''sid'' \<mapsto> ''abc123'']
    \<and> parse_cookies ''a=1; b=2; c=3'' = Inr [''a'' \<mapsto> ''1'', ''b'' \<mapsto> ''2'', ''c'' \<mapsto> ''3'']"
    by (rule parse_plain_pair) (simp_all add: t1 t2 dquote_def npos_def)
  with t1 t2 show ?thesis by simp
qed

theorem parse_empty_value_counterexample:
  "parse_cookies (''a'' @ ''='' @ '''') \<noteq> Inr [''a'' \<mapsto> '''']"
proof -
  have "parse_cookies (''a'' @ ''='' @ '''') = Inr Map.empty"
    by (simp add: parser_eval)
  moreover have "Map.empty \<noteq> [''a'' \<mapsto> '''']"
    by (metis map_upd_nonempty)
  ultimately show ?thesis by simp
qed

lemma format_key_value:
  "format hf gn facet (Cookie_ctor k v)
     = Inr (k @ ''='' @ (if v = [] then [dquote, dquote] else v), facet)"
  by (simp add: format_def Cookie_ctor_def)

text \<open>
  Claim C9, amended. For a cookie built from a key and a value only, where the key has
  no \<open>=\<close> and no surrounding whitespace and the value has no \<open>;\<close>, no surrounding
  whitespace and is not itself begun and ended by a double quote, \<open>format\<close> returns
  \<open>key=value\<close> (two quote characters for the empty value) and parsing that text yields
  the jar that maps the key to the value. A value with a semicolon is cut at the
  semicolon, which is the counterexample to the claim as stated.
\<close>

theorem format_parse_round_trip:
  assumes "CHR ''='' \<notin> set k" and "trim k = k"
    and "CHR '';'' \<notin> set v" and "trim v = v"
    and "\<not> (v \<noteq> [] \<and> hd v = dquote \<and> last v = dquote)"
    and "length (k @ ''='' @ (if v = [] then [dquote, dquote] else v)) < npos"
  shows "format hf gn facet (Cookie_ctor k v)
      = Inr (k @ ''='' @ (if v = [] then [dquote, dquote] else v), facet)
    \<and> parse_cookies (k @ ''='' @ (if v = [] then [dquote, dquote] else v)) = Inr [k \<mapsto> v]"
proof
  show "format hf gn facet (Cookie_ctor k v)
      = Inr (k @ ''='' @ (if v = [] then [dquote, dquote] else v), facet)"
    by (rule format_key_value)
next
  show "parse_cookies (k @ ''='' @ (if v = [] then [dquote, dquote] else v)) = Inr [k \<mapsto> v]"
  proof (cases "v = []")
    case True
    have sq: "strip_quotes (trim [dquote, dquote]) = Inr []"
      by (simp add: parser_eval)
    from assms(6) True have len: "length (k @ CHR ''='' # [dquote, dquote]) < npos"
      by simp
    have "parse_loop (k @ CHR ''='' # [dquote, dquote]) 0 Map.empty
        = Inr (emplace Map.empty (trim k) [])"
      using assms(1) _ _ _ len sq by (rule parse_single_pair) (simp_all add: dquote_def)
    with True assms(2) show ?thesis
      by (simp add: parse_cookies_def emplace_def)
  next
    case False
    from assms(6) False have len: "length (k @ CHR ''='' # v) < npos"
      by simp
    then have "length v < 2 ^ 64" by (simp add: npos_def)
    with assms(5) have "strip_quotes v = Inr v" by (rule strip_quotes_unquoted)
    with assms(4) have sq: "strip_quotes (trim v) = Inr v" by simp
    have "parse_loop (k @ CHR ''='' # v) 0 Map.empty = Inr (emplace Map.empty (trim k) v)"
      using assms(1,3) False hd_not_blank [OF assms(4) False] len sq by (rule parse_single_pair)
    with False assms(2) show ?thesis
      by (simp add: parse_cookies_def emplace_def)
  qed
qed

theorem format_parse_round_trip_witness:
  "format id show_ll Facet_fresh (Cookie_ctor ''session'' ''abc123'')
     = Inr (''session=abc123'', Facet_fresh)
   \<and> parse_cookies ''session=abc123'' = Inr [''session'' \<mapsto> ''abc123'']
   \<and> format id show_ll Facet_fresh (Cookie_ctor ''k'' [])
     = Inr (''k='' @ [dquote, dquote], Facet_fresh)
   \<and> parse_cookies (''k='' @ [dquote, dquote]) = Inr [''k'' \<mapsto> []]"
proof -
  have t: "trim ''session'' = ''session''" "trim ''abc123'' = ''abc123''"
    "trim ''k'' = ''k''" "trim [] = []"
    by (simp_all add: trim_def is_space_def)
  have "format id show_ll Facet_fresh (Cookie_ctor ''session'' ''abc123'')
      = Inr (''session'' @ ''='' @ (if ''abc123'' = [] then [dquote, dquote] else ''abc123''),
             Facet_fresh)
    \<and> parse_cookies (''session'' @ ''='' @ (if ''abc123'' = [] then [dquote, dquote] else ''abc123''))
      = Inr [''session'' \<mapsto> ''abc123'']"
    by (rule format_parse_round_trip) (simp_all add: t dquote_def npos_def)
  moreover have "format id show_ll Facet_fresh (Cookie_ctor ''k'' [])
      = Inr (''k'' @ ''='' @ (if [] = ([] :: string) then [dquote, dquote] else []), Facet_fresh)
    \<and> parse_cookies (''k'' @ ''='' @ (if [] = ([] :: string) then [dquote, dquote] else []))
      = Inr [''k'' \<mapsto> []]"
    by (rule format_parse_round_trip) (simp_all add: t dquote_def npos_def)
  ultimately show ?thesis by simp
qed

theorem format_parse_round_trip_counterexample:
  "format id show_ll Facet_fresh (Cookie_ctor ''k'' ''a;b'') = Inr (''k=a;b'', Facet_fresh)
   \<and> parse_cookies ''k=a;b'' = Inr [''k'' \<mapsto> ''a'']
   \<and> [''k'' \<mapsto> ''a''] ''k'' \<noteq> Some ''a;b''"
  by (simp add: parser_eval format_key_value)

end
